theory Spec2Isabelle
  imports Main "HOL-Library.Sublist"
begin

section \<open>Receipt processor: a shallow embedding of \<open>receiptprocessor.py\<close>\<close>

text \<open>
  The program reads OCR text of receipts, assigns a category by keyword, extracts a
  warranty date and product/price pairs with two regular expressions, writes a text
  file per receipt and reports warranties that expire soon.

  Python's \<open>str\<close> is a sequence of Unicode code points. Here a text is a \<open>string\<close>
  (a \<open>char list\<close>) whose characters are read as the code points 0 to 255; the character
  classes and the lower-casing below are Python's, restricted to that range.
\<close>

subsection \<open>Characters and strings\<close>

definition str_lower_char :: "char \<Rightarrow> char" where
  \<comment> \<open>\<open>str.lower\<close> on one code point below 256: A-Z and the Latin-1 capitals
      (0xC0-0xDE without the multiplication sign 0xD7) move up by 32.\<close>
  "str_lower_char c =
     (let n = (of_char c :: nat)
      in if (65 \<le> n \<and> n \<le> 90) \<or> (192 \<le> n \<and> n \<le> 222 \<and> n \<noteq> 215)
         then char_of (n + 32) else c)"

definition lower :: "string \<Rightarrow> string" where
  "lower s = map str_lower_char s"

definition is_digit :: "char \<Rightarrow> bool" where
  \<comment> \<open>\<open>\d\<close>: below 256 the only decimal digits are 0-9.\<close>
  "is_digit c = (let n = (of_char c :: nat) in 48 \<le> n \<and> n \<le> 57)"

definition is_space :: "char \<Rightarrow> bool" where
  \<comment> \<open>\<open>\s\<close> of a \<open>str\<close> pattern: tab, LF, VT, FF, CR, the separators 0x1C-0x1F,
      space, NEL (0x85) and the no-break space (0xA0).\<close>
  "is_space c =
     (let n = (of_char c :: nat)
      in (9 \<le> n \<and> n \<le> 13) \<or> (28 \<le> n \<and> n \<le> 32) \<or> n = 133 \<or> n = 160)"

definition is_ascii_letter :: "char \<Rightarrow> bool" where
  \<comment> \<open>\<open>[A-Za-z]\<close>\<close>
  "is_ascii_letter c =
     (let n = (of_char c :: nat) in (65 \<le> n \<and> n \<le> 90) \<or> (97 \<le> n \<and> n \<le> 122))"

definition is_name_char :: "char \<Rightarrow> bool" where
  \<comment> \<open>\<open>[A-Za-z\s]\<close>\<close>
  "is_name_char c = (is_ascii_letter c \<or> is_space c)"

definition not_newline :: "char \<Rightarrow> bool" where
  \<comment> \<open>\<open>.\<close> without \<open>re.DOTALL\<close>: every character but the line feed.\<close>
  "not_newline c = (c \<noteq> CHR 0x0A)"

subsection \<open>The regular expressions of the program and how \<open>re\<close> matches them\<close>

text \<open>
  Only the constructs the patterns of the program (and of \<open>strptime\<close>) use: one
  character of a class, concatenation, alternation, a greedy \<open>+\<close> and a lazy \<open>*?\<close>
  over a class, and a capture group.
\<close>

datatype rx =
    Cls "char \<Rightarrow> bool"
  | Cat rx rx
  | Alt rx rx
  | PlusG "char \<Rightarrow> bool"
  | StarL "char \<Rightarrow> bool"
  | Grp rx

text \<open>
  \<open>ms r (s, g)\<close> lists every way \<open>r\<close> matches a prefix of \<open>s\<close>, as (rest of the input,
  groups captured so far), in the order the backtracking matcher tries them: a greedy
  repetition offers its longest run first, a lazy one its shortest, an alternation its
  left branch first. The match the matcher reports is the head of the list.
\<close>

fun ms :: "rx \<Rightarrow> string \<times> string list \<Rightarrow> (string \<times> string list) list" where
  "ms (Cls P) (s, g) = (case s of [] \<Rightarrow> [] | c # cs \<Rightarrow> if P c then [(cs, g)] else [])"
| "ms (Cat a b) st = concat (map (ms b) (ms a st))"
| "ms (Alt a b) st = ms a st @ ms b st"
| "ms (PlusG P) (s, g) =
     map (\<lambda>k. (drop k s, g)) (rev [1 ..< Suc (length (takeWhile P s))])"
| "ms (StarL P) (s, g) =
     map (\<lambda>k. (drop k s, g)) [0 ..< Suc (length (takeWhile P s))]"
| "ms (Grp r) (s, g) =
     map (\<lambda>(s', g'). (s', g' @ [take (length s - length s') s])) (ms r (s, g))"

text \<open>
  \<open>re.match\<close> matches at the start of the input; \<open>re.search\<close> takes the first start
  position, from the left, at which the pattern matches. The result is the captured groups
  and the input left after the match.
\<close>

definition match_start :: "rx \<Rightarrow> string \<Rightarrow> (string list \<times> string) option" where
  "match_start r s = (case ms r (s, []) of [] \<Rightarrow> None | (rest, g) # _ \<Rightarrow> Some (g, rest))"

fun search :: "rx \<Rightarrow> string \<Rightarrow> (string list \<times> string) option" where
  "search r [] = match_start r []"
| "search r (c # cs) =
     (case match_start r (c # cs) of None \<Rightarrow> search r cs | Some m \<Rightarrow> Some m)"

fun cat_list :: "rx list \<Rightarrow> rx" where
  "cat_list [r] = r"
| "cat_list (r # rs) = Cat r (cat_list rs)"
| "cat_list [] = StarL (\<lambda>_. False)"

definition ichar :: "char \<Rightarrow> rx" where
  \<comment> \<open>a lower-case literal under \<open>re.IGNORECASE\<close>\<close>
  "ichar c = Cls (\<lambda>x. str_lower_char x = c)"

definition date_rx :: rx where
  \<comment> \<open>\<open>\d{2}/\d{2}/\d{4}\<close>\<close>
  "date_rx = cat_list
     [Cls is_digit, Cls is_digit, Cls (\<lambda>c. c = CHR ''/''),
      Cls is_digit, Cls is_digit, Cls (\<lambda>c. c = CHR ''/''),
      Cls is_digit, Cls is_digit, Cls is_digit, Cls is_digit]"

definition warranty_rx :: rx where
  \<comment> \<open>\<open>warranty.*?(\d{2}/\d{2}/\d{4})\<close> with \<open>re.IGNORECASE\<close>\<close>
  "warranty_rx = Cat (cat_list (map ichar ''warranty'')) (Cat (StarL not_newline) (Grp date_rx))"

definition price_rx :: rx where
  \<comment> \<open>\<open>\d+\.\d{2}\<close>\<close>
  "price_rx = cat_list [PlusG is_digit, Cls (\<lambda>c. c = CHR ''.''), Cls is_digit, Cls is_digit]"

definition products_rx :: rx where
  \<comment> \<open>\<open>([A-Za-z\s]+)\s+(\d+\.\d{2})\<close>\<close>
  "products_rx = Cat (Grp (PlusG is_name_char)) (Cat (PlusG is_space) (Grp price_rx))"

text \<open>
  \<open>re.findall\<close> searches from the current position and, after a match, goes on from
  the end of that match. The product pattern consumes at least four characters, so every
  round shortens the input; \<open>min_width\<close> is the bound used for termination.
\<close>

fun min_width :: "rx \<Rightarrow> nat" where
  "min_width (Cls P) = 1"
| "min_width (Cat a b) = min_width a + min_width b"
| "min_width (Alt a b) = min (min_width a) (min_width b)"
| "min_width (PlusG P) = 1"
| "min_width (StarL P) = 0"
| "min_width (Grp r) = min_width r"

lemma ms_shorter:
  "(s', g') \<in> set (ms r (s, g)) \<Longrightarrow> length s' + min_width r \<le> length s"
proof (induction r arbitrary: s g s' g')
  case (Cls P)
  then show ?case by (auto split: list.splits if_splits)
next
  case (Cat a b)
  then obtain s1 g1 where a: "(s1, g1) \<in> set (ms a (s, g))"
    and b: "(s', g') \<in> set (ms b (s1, g1))"
    by auto
  from Cat.IH(1)[OF a] Cat.IH(2)[OF b] show ?case by simp
next
  case (Alt a b)
  then have "(s', g') \<in> set (ms a (s, g)) \<or> (s', g') \<in> set (ms b (s, g))"
    by auto
  with Alt.IH show ?case by fastforce
next
  case (PlusG P)
  then obtain k where k: "1 \<le> k" "k \<le> length (takeWhile P s)" "s' = drop k s"
    by auto
  moreover have "length (takeWhile P s) \<le> length s" by (rule length_takeWhile_le)
  ultimately show ?case by simp
next
  case (StarL P)
  then show ?case by auto
next
  case (Grp r)
  then show ?case by fastforce
qed

lemma match_start_shorter:
  "match_start r s = Some (g, rest) \<Longrightarrow> length rest + min_width r \<le> length s"
proof -
  assume "match_start r s = Some (g, rest)"
  then have "(rest, g) \<in> set (ms r (s, []))"
    by (auto simp: match_start_def split: list.splits)
  then show ?thesis by (rule ms_shorter)
qed

lemma search_shorter:
  "search r s = Some (g, rest) \<Longrightarrow> length rest + min_width r \<le> length s"
proof (induction s)
  case Nil
  then have "match_start r [] = Some (g, rest)" by simp
  then show ?case by (rule match_start_shorter)
next
  case (Cons c cs)
  show ?case
  proof (cases "match_start r (c # cs)")
    case None
    with Cons show ?thesis by simp
  next
    case (Some m)
    with Cons.prems have "match_start r (c # cs) = Some (g, rest)" by simp
    then show ?thesis by (rule match_start_shorter)
  qed
qed

definition tuple2 :: "string list \<Rightarrow> string \<times> string" where
  \<comment> \<open>the tuple \<open>findall\<close> builds from the two groups of a match; the pattern has exactly
      two groups, so the last case never arises (lemma \<open>products_groups\<close>)\<close>
  "tuple2 g = (case g of [a, b] \<Rightarrow> (a, b) | _ \<Rightarrow> ([], []))"

function findall_products :: "string \<Rightarrow> (string \<times> string) list" where
  "findall_products s =
     (case search products_rx s of
        None \<Rightarrow> []
      | Some (g, rest) \<Rightarrow> tuple2 g # findall_products rest)"
  by pat_completeness auto
termination
proof (relation "measure length")
  show "wf (measure length)" by simp
next
  fix s :: string and x2 :: "string list \<times> string" and g rest
  assume "search products_rx s = Some x2" and "(g, rest) = x2"
  then have "length rest + min_width products_rx \<le> length s"
    using search_shorter by metis
  then show "(rest, s) \<in> measure length"
    by (simp add: products_rx_def price_rx_def)
qed

text \<open>The equation of \<open>findall_products\<close> rewrites its own right-hand side, so it is
  applied by hand only.\<close>

declare findall_products.simps [simp del]

subsection \<open>Field extractor\<close>

text \<open>
  \<^verbatim>\<open>
  def extract_warranty_and_products(text):
      warranty_date = re.search(r'warranty.*?(\d{2}/\d{2}/\d{4})', text, re.IGNORECASE)
      products = re.findall(r'([A-Za-z\s]+)\s+(\d+\.\d{2})', text)
      return warranty_date.group(1) if warranty_date else None, products
  \<close>
\<close>

definition group1 :: "string list \<Rightarrow> string" where
  \<comment> \<open>\<open>m.group(1)\<close>; the pattern has one group, so the list is never empty
      (lemma \<open>warranty_groups\<close>)\<close>
  "group1 g = (case g of [] \<Rightarrow> [] | d # _ \<Rightarrow> d)"

definition extract_warranty_and_products :: "string \<Rightarrow> string option \<times> (string \<times> string) list" where
  "extract_warranty_and_products text =
     (let warranty_date = search warranty_rx text;
          products = findall_products text
      in (case warranty_date of None \<Rightarrow> None | Some (g, _) \<Rightarrow> Some (group1 g), products))"

subsection \<open>Categorizer\<close>

text \<open>
  \<^verbatim>\<open>
  def categorize_receipt(text):
      categories = {
          'restaurant': ['restaurant', 'cafe', 'diner'],
          'grocery': ['grocery', 'supermarket', 'food','walmart'],
          'electronics': ['electronics', 'technology', 'gadget'],
          'warrenty': ['warrenty', 'WARRENTY', 'valid until', 'expiry']
      }
      for category, keywords in categories.items():
          if any(keyword in text.lower() for keyword in keywords):
              return category
      return 'other'
  \<close>
  A \<open>dict\<close> iterates in insertion order, so the table is an association list.
  \<open>keyword in s\<close> on strings is the contiguous-substring test, \<open>sublist\<close>.
\<close>

definition categories :: "(string \<times> string list) list" where
  "categories =
     [(''restaurant'', [''restaurant'', ''cafe'', ''diner'']),
      (''grocery'', [''grocery'', ''supermarket'', ''food'', ''walmart'']),
      (''electronics'', [''electronics'', ''technology'', ''gadget'']),
      (''warrenty'', [''warrenty'', ''WARRENTY'', ''valid until'', ''expiry''])]"

fun categorize_loop :: "(string \<times> string list) list \<Rightarrow> string \<Rightarrow> string" where
  "categorize_loop [] text = ''other''"
| "categorize_loop ((category, keywords) # rest) text =
     (if list_ex (\<lambda>keyword. sublist keyword (lower text)) keywords then category
      else categorize_loop rest text)"

definition categorize_receipt :: "string \<Rightarrow> string" where
  "categorize_receipt text = categorize_loop categories text"

subsection \<open>Exceptions\<close>

text \<open>
  The exceptions the program can meet. \<open>IOError\<close> is Python 3's alias of \<open>OSError\<close>;
  all four are subclasses of \<open>Exception\<close>.
\<close>

datatype exn = ValueError | OSError | NameError | OtherException

subsection \<open>Calendar dates (\<open>datetime.date\<close>)\<close>

text \<open>
  The proleptic Gregorian calendar of the \<open>datetime\<close> module: \<open>_is_leap\<close>,
  \<open>_days_before_year\<close>, \<open>_days_in_month\<close>, \<open>_days_before_month\<close>, \<open>_ymd2ord\<close>
  and the range checks of the \<open>date\<close> constructor. The two tables are read at an index
  between 1 and 12 only: \<open>new_date\<close> checks the month before the day.
\<close>

record date =
  year :: int
  month :: int
  day :: int

definition is_leap :: "int \<Rightarrow> bool" where
  "is_leap y = (y mod 4 = 0 \<and> (y mod 100 \<noteq> 0 \<or> y mod 400 = 0))"

definition days_before_year :: "int \<Rightarrow> int" where
  "days_before_year yr = (let y = yr - 1 in y * 365 + y div 4 - y div 100 + y div 400)"

definition DAYS_IN_MONTH :: "int list" where
  "DAYS_IN_MONTH = [-1, 31, 28, 31, 30, 31, 30, 31, 31, 30, 31, 30, 31]"

definition DAYS_BEFORE_MONTH :: "int list" where
  "DAYS_BEFORE_MONTH = [-1, 0, 31, 59, 90, 120, 151, 181, 212, 243, 273, 304, 334]"

definition days_in_month :: "int \<Rightarrow> int \<Rightarrow> int" where
  "days_in_month y m = (if m = 2 \<and> is_leap y then 29 else DAYS_IN_MONTH ! nat m)"

definition days_before_month :: "int \<Rightarrow> int \<Rightarrow> int" where
  "days_before_month y m = DAYS_BEFORE_MONTH ! nat m + (if m > 2 \<and> is_leap y then 1 else 0)"

definition ymd2ord :: "int \<Rightarrow> int \<Rightarrow> int \<Rightarrow> int" where
  "ymd2ord y m d = days_before_year y + days_before_month y m + d"

definition new_date :: "int \<Rightarrow> int \<Rightarrow> int \<Rightarrow> exn + date" where
  "new_date y m d =
     (if \<not> (1 \<le> y \<and> y \<le> 9999) then Inl ValueError
      else if \<not> (1 \<le> m \<and> m \<le> 12) then Inl ValueError
      else if \<not> (1 \<le> d \<and> d \<le> days_in_month y m) then Inl ValueError
      else Inr \<lparr>year = y, month = m, day = d\<rparr>)"

definition toordinal :: "date \<Rightarrow> int" where
  "toordinal d = ymd2ord (year d) (month d) (day d)"

definition days_between :: "date \<Rightarrow> date \<Rightarrow> int" where
  "days_between a b = toordinal a - toordinal b"

subsection \<open>\<open>datetime.strptime(date_str, "%m/%d/%Y")\<close>\<close>

text \<open>
  \<open>_strptime\<close> turns the format into the pattern
  \<^verbatim>\<open>(?P<m>1[0-2]|0[1-9]|[1-9])/(?P<d>3[0-1]|[1-2]\d|0[1-9]|[1-9]| [1-9])/(?P<Y>\d\d\d\d)\<close>,
  matches it at the start of the string, raises \<open>ValueError\<close> when it does not match or
  when input is left over, converts the three groups with \<open>int\<close> and builds the date,
  whose constructor raises \<open>ValueError\<close> for a date that is not in the calendar.
\<close>

definition ch :: "char \<Rightarrow> rx" where
  "ch c = Cls (\<lambda>x. x = c)"

definition rng :: "char \<Rightarrow> char \<Rightarrow> rx" where
  "rng a b = Cls (\<lambda>x. (of_char a :: nat) \<le> of_char x \<and> (of_char x :: nat) \<le> of_char b)"

definition strptime_rx :: rx where
  "strptime_rx = cat_list
     [Grp (Alt (Cat (ch CHR ''1'') (rng CHR ''0'' CHR ''2''))
          (Alt (Cat (ch CHR ''0'') (rng CHR ''1'' CHR ''9''))
               (rng CHR ''1'' CHR ''9''))),
      ch CHR ''/'',
      Grp (Alt (Cat (ch CHR ''3'') (rng CHR ''0'' CHR ''1''))
          (Alt (Cat (rng CHR ''1'' CHR ''2'') (Cls is_digit))
          (Alt (Cat (ch CHR ''0'') (rng CHR ''1'' CHR ''9''))
          (Alt (rng CHR ''1'' CHR ''9'')
               (Cat (ch CHR '' '') (rng CHR ''1'' CHR ''9'')))))),
      ch CHR ''/'',
      Grp (cat_list [Cls is_digit, Cls is_digit, Cls is_digit, Cls is_digit])]"

definition py_int :: "string \<Rightarrow> int" where
  \<comment> \<open>\<open>int(s)\<close> on a group of the pattern: decimal digits after an optional blank\<close>
  "py_int s = foldl (\<lambda>a c. 10 * a + (int (of_char c) - 48)) 0 (dropWhile is_space s)"

definition strptime_mdY :: "string \<Rightarrow> exn + date" where
  \<comment> \<open>the pattern has three groups, so the last case never arises
      (lemma \<open>strptime_groups\<close>)\<close>
  "strptime_mdY data_string =
     (case match_start strptime_rx data_string of
        None \<Rightarrow> Inl ValueError
      | Some (g, rest) \<Rightarrow>
          if rest \<noteq> [] then Inl ValueError
          else (case g of
                  [m, d, y] \<Rightarrow> new_date (py_int y) (py_int m) (py_int d)
                | _ \<Rightarrow> Inl ValueError))"

subsection \<open>The world outside the program\<close>

text \<open>
  What the program reads and changes: the wall clock, the files it writes, the log, and
  the two imaging collaborators. \<open>clock\<close> is what \<open>datetime.now()\<close> returns: the calendar
  date (its \<open>.date()\<close>) and the microseconds since midnight. \<open>refused\<close> holds the paths
  the operating system refuses to create or to open for writing. Every call \<open>logging.debug/info/warning/error\<close> appends
  one entry, its level and which message with which values (the root logger is set to
  \<open>DEBUG\<close>, so nothing is filtered). An image is its list of 8-bit grey values.
\<close>

datatype level = DEBUG | INFO | WARNING | ERROR

datatype event =
    Processing_receipt string
  | Extracted_text string
  | Categorized_as string "string option" "(string \<times> string) list"
  | Generated string
  | Error_writing_to_text_file exn
  | Error_processing_image string exn
  | Invalid_date_format string string

record world =
  clock :: "date \<times> nat"
  files :: "string \<rightharpoonup> string"
  refused :: "string set"
  logged :: "(level \<times> event) list"
  open_image :: "string \<Rightarrow> exn + nat list"
  image_to_string :: "nat list \<Rightarrow> exn + string"

definition logging :: "level \<Rightarrow> event \<Rightarrow> world \<Rightarrow> world" where
  "logging lv e w = w\<lparr>logged := logged w @ [(lv, e)]\<rparr>"

subsection \<open>Warranty monitor\<close>

text \<open>
  \<^verbatim>\<open>
  def check_expiring_warranties(warranties, days_threshold=7):
      today = datetime.now().date()
      expiring_soon = []
      for item, date_str, path in warranties:
          try:
              date = datetime.strptime(date_str, "%m/%d/%Y").date()
              if (date - today).days <= days_threshold:
                  expiring_soon.append((item, date, path))
          except ValueError:
              logging.warning(f"Invalid date format for {item}: {date_str}")
      return expiring_soon
  \<close>
  The handler catches \<open>ValueError\<close> only; any other exception leaves the function.
\<close>

fun check_loop ::
  "date \<Rightarrow> int \<Rightarrow> (string \<times> string \<times> string) list \<Rightarrow> (string \<times> date \<times> string) list \<Rightarrow>
   world \<Rightarrow> (exn + (string \<times> date \<times> string) list) \<times> world" where
  "check_loop today days_threshold [] expiring_soon w = (Inr expiring_soon, w)"
| "check_loop today days_threshold ((item, date_str, path) # rest) expiring_soon w =
     (case strptime_mdY date_str of
        Inr d \<Rightarrow>
          if days_between d today \<le> days_threshold
          then check_loop today days_threshold rest (expiring_soon @ [(item, d, path)]) w
          else check_loop today days_threshold rest expiring_soon w
      | Inl e \<Rightarrow>
          if e = ValueError
          then check_loop today days_threshold rest expiring_soon
                 (logging WARNING (Invalid_date_format item date_str) w)
          else (Inl e, w))"

definition check_expiring_warranties ::
  "(string \<times> string \<times> string) list \<Rightarrow> int \<Rightarrow> world \<Rightarrow>
   (exn + (string \<times> date \<times> string) list) \<times> world" where
  "check_expiring_warranties warranties days_threshold w =
     (let today = fst (clock w)
      in check_loop today days_threshold warranties [] w)"

subsection \<open>Paths (\<open>os.path.join\<close> and \<open>Path(p).stem\<close> on POSIX)\<close>

definition path_join :: "string \<Rightarrow> string \<Rightarrow> string" where
  "path_join a b =
     (if prefix ''/'' b then b
      else if a = [] \<or> suffix ''/'' a then a @ b
      else a @ ''/'' @ b)"

fun split_slash :: "string \<Rightarrow> string \<Rightarrow> string list" where
  \<comment> \<open>\<open>p.split('/')\<close>; the first argument is the component read so far, reversed\<close>
  "split_slash cur [] = [rev cur]"
| "split_slash cur (c # cs) =
     (if c = CHR ''/'' then rev cur # split_slash [] cs else split_slash (c # cur) cs)"

definition path_name :: "string \<Rightarrow> string" where
  \<comment> \<open>the last component that is neither empty nor \<open>.\<close>, or the empty string\<close>
  "path_name p =
     (case rev (filter (\<lambda>x. x \<noteq> [] \<and> x \<noteq> ''.'') (split_slash [] p)) of
        [] \<Rightarrow> []
      | n # _ \<Rightarrow> n)"

definition path_stem :: "string \<Rightarrow> string" where
  \<comment> \<open>\<open>i = name.rfind('.')\<close>; \<open>name[:i]\<close> if \<open>0 < i < len(name) - 1\<close>, else \<open>name\<close>\<close>
  "path_stem p =
     (let name = path_name p
      in if CHR ''.'' \<in> set name
         then (let i = length name - 1 - length (takeWhile (\<lambda>c. c \<noteq> CHR ''.'') (rev name))
               in if 0 < i \<and> i < length name - 1 then take i name else name)
         else name)"

subsection \<open>Output writer\<close>

text \<open>
  \<^verbatim>\<open>
  def generate_output(path, category, warranty_date, products, text):
      try:
          with open(path, "w") as file:
              file.write(f"Category: {category}\n\n")
              file.write(f"Extracted Text:\n{text}\n\n")
              if warranty_date:
                  file.write(f"Warranty Date: {warranty_date}\n")
              file.write("Products:\n")
              for name, price in products:
                  file.write(f"{name}: {price}\n")
          logging.debug(f'Generated {path}')
      except IOError as e:
          logging.error(f"Error writing to text file: {e}")
  \<close>
  \<open>open\<close> raises when the path is refused; otherwise the file holds what the writes
  appended, in their order. \<open>if warranty_date\<close> is false for \<open>None\<close> and for the empty
  string.
\<close>

definition file_write :: "string \<Rightarrow> string \<Rightarrow> string" where
  "file_write file s = file @ s"

definition generate_output ::
  "string \<Rightarrow> string \<Rightarrow> string option \<Rightarrow> (string \<times> string) list \<Rightarrow> string \<Rightarrow> world \<Rightarrow> world" where
  "generate_output path category warranty_date products text w =
     (if path \<in> refused w then logging ERROR (Error_writing_to_text_file OSError) w
      else
        (let file = [];
             file = file_write file (''Category: '' @ category @ [CHR 0x0A, CHR 0x0A]);
             file = file_write file
                      (''Extracted Text:'' @ [CHR 0x0A] @ text @ [CHR 0x0A, CHR 0x0A]);
             file = (case warranty_date of
                       None \<Rightarrow> file
                     | Some d \<Rightarrow>
                         if d = [] then file
                         else file_write file (''Warranty Date: '' @ d @ [CHR 0x0A]));
             file = file_write file (''Products:'' @ [CHR 0x0A]);
             file = foldl (\<lambda>f (name, price). file_write f (name @ '': '' @ price @ [CHR 0x0A]))
                      file products
         in logging DEBUG (Generated path) (w\<lparr>files := (files w)(path \<mapsto> file)\<rparr>)))"

subsection \<open>Receipt pipeline\<close>

text \<open>
  \<^verbatim>\<open>
  def binarize_image(im):
      return im.point(lambda x: 255 if x > 170 else 0)

  def process_receipt(image_path, output_dir):
      try:
          logging.debug(f"Processing receipt: {image_path}")
          im = Image.open(image_path).convert('L')
          im = binarize_image(im)
          text = image_to_string(im, lang='eng')
          logging.debug(f"Extracted text: {text}")
          category = categorize_receipt(text)
          warranty_date, products = extract_warranty_and_products(text)
          logging.debug(f"Categorized as: {category}, Warranty Date: {warranty_date}, Products: {products}")
          category_dir = os.path.join(output_dir, category)
          os.makedirs(category_dir, exist_ok=True)
          output_path = os.path.join(category_dir, Path(image_path).stem + '.txt')
          generate_output(output_path, category, warranty_date, products, text)
          return category, warranty_date, output_path
      except Exception as e:
          logging.error(f"Error processing image {image_path}: {e}")
          return None, None, None
  \<close>
  The file imports \<open>image_to_string\<close> but never \<open>Image\<close>: the name is looked up in the
  module's globals when line 58 runs. \<open>open_image\<close> stands for
  \<open>Image.open(image_path).convert('L')\<close> under whatever binding the globals hold; with none,
  it is \<open>\<lambda>_. Inl NameError\<close> and every receipt takes the \<open>except\<close> branch
  (lemma \<open>process_receipt_unbound_Image\<close>).
\<close>

definition binarize_image :: "nat list \<Rightarrow> nat list" where
  "binarize_image im = map (\<lambda>x. if x > 170 then 255 else 0) im"

definition process_receipt ::
  "string \<Rightarrow> string \<Rightarrow> world \<Rightarrow> (string option \<times> string option \<times> string option) \<times> world" where
  "process_receipt image_path output_dir w0 =
     (let w = logging DEBUG (Processing_receipt image_path) w0
      in case open_image w image_path of
           Inl e \<Rightarrow> ((None, None, None), logging ERROR (Error_processing_image image_path e) w)
         | Inr im \<Rightarrow>
             (let im = binarize_image im
              in case image_to_string w im of
                   Inl e \<Rightarrow>
                     ((None, None, None), logging ERROR (Error_processing_image image_path e) w)
                 | Inr text \<Rightarrow>
                     (let w = logging DEBUG (Extracted_text text) w;
                          category = categorize_receipt text;
                          (warranty_date, products) = extract_warranty_and_products text;
                          w = logging DEBUG (Categorized_as category warranty_date products) w;
                          category_dir = path_join output_dir category
                      in if category_dir \<in> refused w
                         then ((None, None, None),
                               logging ERROR (Error_processing_image image_path OSError) w)
                         else
                           (let output_path =
                                  path_join category_dir (path_stem image_path @ ''.txt'');
                                w = generate_output output_path category warranty_date
                                      products text w
                            in ((Some category, warranty_date, Some output_path), w)))))"

text \<open>The table with one keyword taken out of every row.\<close>

definition remove_keyword ::
  "string \<Rightarrow> (string \<times> string list) list \<Rightarrow> (string \<times> string list) list" where
  "remove_keyword kw table =
     map (\<lambda>(category, keywords). (category, removeAll kw keywords)) table"

section \<open>Notions used to state the properties\<close>

subsection \<open>Fixed-width patterns and the shape of a date\<close>

text \<open>\<open>starts_with Ps s\<close>: the first characters of \<open>s\<close> lie, one by one, in the classes
  \<open>Ps\<close>.\<close>

fun starts_with :: "(char \<Rightarrow> bool) list \<Rightarrow> string \<Rightarrow> bool" where
  "starts_with [] s = True"
| "starts_with (P # Ps) [] = False"
| "starts_with (P # Ps) (c # cs) = (P c \<and> starts_with Ps cs)"

definition date_classes :: "(char \<Rightarrow> bool) list" where
  "date_classes =
     [is_digit, is_digit, (\<lambda>c. c = CHR ''/''), is_digit, is_digit, (\<lambda>c. c = CHR ''/''),
      is_digit, is_digit, is_digit, is_digit]"

text \<open>A date substring: two digits, a slash, two digits, a slash, four digits.\<close>

definition date_shape :: "string \<Rightarrow> bool" where
  "date_shape d = (length d = 10 \<and> starts_with date_classes d)"

subsection \<open>The warranty pattern read as positions in the text\<close>

text \<open>
  \<open>warranty_then_date s i j\<close>: the eight characters of \<open>s\<close> from position \<open>i\<close> spell
  \<open>warranty\<close> in any case, a date substring begins at position \<open>j\<close>, at or after the
  end of that token, and no line feed stands between the token and the date.
\<close>

definition warranty_then_date :: "string \<Rightarrow> nat \<Rightarrow> nat \<Rightarrow> bool" where
  "warranty_then_date s i j =
     (lower (take 8 (drop i s)) = ''warranty'' \<and> i + 8 \<le> j \<and>
      CHR 0x0A \<notin> set (take (j - (i + 8)) (drop (i + 8) s)) \<and>
      date_shape (take 10 (drop j s)))"

text \<open>
  Devices of the proofs: the scan the lazy \<open>.*?\<close> amounts to, the head of a list of
  matches, a date reachable after \<open>k\<close> characters without crossing a line feed, a start
  position at which a pattern matches, and where the date of the match at \<open>i\<close> begins.
\<close>

fun lazy_date :: "string \<Rightarrow> (string \<times> string) option" where
  "lazy_date [] = None"
| "lazy_date (c # cs) =
     (if starts_with date_classes (c # cs) then Some (take 10 (c # cs), drop 10 (c # cs))
      else if c = CHR 0x0A then None else lazy_date cs)"

definition first_of :: "(string \<times> string list) list \<Rightarrow> (string list \<times> string) option" where
  "first_of xs = (case xs of [] \<Rightarrow> None | (rest, g) # _ \<Rightarrow> Some (g, rest))"

definition date_after :: "string \<Rightarrow> nat \<Rightarrow> bool" where
  "date_after s k = (starts_with date_classes (drop k s) \<and> CHR 0x0A \<notin> set (take k s))"

definition match_at :: "rx \<Rightarrow> string \<Rightarrow> nat \<Rightarrow> bool" where
  "match_at r s i = (match_start r (drop i s) \<noteq> None)"

definition date_pos :: "string \<Rightarrow> nat \<Rightarrow> nat" where
  "date_pos s i = i + 8 + (LEAST k. date_after (drop (i + 8) s) k)"

text \<open>
  The warranty date as the specification words it: the first date anywhere after the first
  \<open>warranty\<close> token, line feeds or not.
\<close>

fun first_date :: "string \<Rightarrow> string option" where
  "first_date [] = None"
| "first_date (c # cs) =
     (if starts_with date_classes (c # cs) then Some (take 10 (c # cs)) else first_date cs)"

fun spec_extractWarrantyDate :: "string \<Rightarrow> string option" where
  "spec_extractWarrantyDate [] = None"
| "spec_extractWarrantyDate (c # cs) =
     (if lower (take 8 (c # cs)) = ''warranty'' then first_date (drop 8 (c # cs))
      else spec_extractWarrantyDate cs)"

subsection \<open>What a pattern matches, without the order of the attempts\<close>

text \<open>\<open>matches r u gs\<close>: the pattern \<open>r\<close> matches the whole of \<open>u\<close> and captures the
  groups \<open>gs\<close>.\<close>

fun matches :: "rx \<Rightarrow> string \<Rightarrow> string list \<Rightarrow> bool" where
  "matches (Cls P) u gs = (\<exists>c. u = [c] \<and> P c \<and> gs = [])"
| "matches (Cat a b) u gs =
     (\<exists>u1 u2 g1 g2. u = u1 @ u2 \<and> gs = g1 @ g2 \<and> matches a u1 g1 \<and> matches b u2 g2)"
| "matches (Alt a b) u gs = (matches a u gs \<or> matches b u gs)"
| "matches (PlusG P) u gs = (u \<noteq> [] \<and> list_all P u \<and> gs = [])"
| "matches (StarL P) u gs = (list_all P u \<and> gs = [])"
| "matches (Grp r) u gs = (\<exists>g. matches r u g \<and> gs = g @ [u])"

text \<open>A pattern without a capture group.\<close>

fun group_free :: "rx \<Rightarrow> bool" where
  "group_free (Cls P) = True"
| "group_free (Cat a b) = (group_free a \<and> group_free b)"
| "group_free (Alt a b) = (group_free a \<and> group_free b)"
| "group_free (PlusG P) = True"
| "group_free (StarL P) = True"
| "group_free (Grp r) = False"

subsection \<open>Line items\<close>

text \<open>
  A name is a non-empty run of letters and whitespace; a price is digits, a point and exactly
  two digits. \<open>line_items_in items s\<close>: the items stand in \<open>s\<close> one after the other, in
  the order of the list, each name followed by whitespace and its price.
  \<open>has_fraction2 s\<close>: somewhere in \<open>s\<close> a point is followed by two digits.
\<close>

definition name_shape :: "string \<Rightarrow> bool" where
  "name_shape n = (n \<noteq> [] \<and> list_all is_name_char n)"

definition price_shape :: "string \<Rightarrow> bool" where
  "price_shape p =
     (case rev p of
        d2 # d1 # dot # ds \<Rightarrow>
          is_digit d2 \<and> is_digit d1 \<and> dot = CHR ''.'' \<and> ds \<noteq> [] \<and> list_all is_digit ds
      | _ \<Rightarrow> False)"


definition fraction_classes :: "(char \<Rightarrow> bool) list" where
  "fraction_classes = [(\<lambda>c. c = CHR ''.''), is_digit, is_digit]"

fun has_fraction2 :: "string \<Rightarrow> bool" where
  "has_fraction2 [] = False"
| "has_fraction2 (c # cs) = (starts_with fraction_classes (c # cs) \<or> has_fraction2 cs)"

subsection \<open>Warranty monitor\<close>

text \<open>
  What one record contributes to the result for a given day and threshold; whether its date
  string parses; the log entry written for it when it does not.
\<close>

definition expiring_record :: "date \<Rightarrow> int \<Rightarrow> string \<times> string \<times> string \<Rightarrow> (string \<times> date \<times> string) option" where
  "expiring_record today threshold r =
     (case r of (item, date_str, path) \<Rightarrow>
        (case strptime_mdY date_str of
           Inl _ \<Rightarrow> None
         | Inr d \<Rightarrow> if days_between d today \<le> threshold then Some (item, d, path) else None))"

definition date_parses :: "string \<times> string \<times> string \<Rightarrow> bool" where
  "date_parses r = (case r of (item, date_str, path) \<Rightarrow>
        (case strptime_mdY date_str of Inl _ \<Rightarrow> False | Inr _ \<Rightarrow> True))"

definition invalid_date_warning :: "string \<times> string \<times> string \<Rightarrow> level \<times> event" where
  "invalid_date_warning r = (case r of (item, date_str, path) \<Rightarrow> (WARNING, Invalid_date_format item date_str))"

subsection \<open>The output artifact\<close>



subsection \<open>Worlds for the examples\<close>

text \<open>
  \<open>example_world\<close>: 10 January 2024, midnight, nothing written or refused, and \<open>Image\<close>
  unbound. \<open>ocr_world\<close>: the same with an imaging library bound that reads four pixels and
  an OCR engine that recognises them.
\<close>

definition example_world :: world where
  "example_world =
     \<lparr>clock = (\<lparr>year = 2024, month = 1, day = 10\<rparr>, 0), files = Map.empty, refused = {},
      logged = [], open_image = (\<lambda>_. Inl NameError), image_to_string = (\<lambda>_. Inl OtherException)\<rparr>"


section \<open>Properties\<close>

subsection \<open>Lower-casing\<close>

lemma str_lower_char_not_upper:
  "\<not> (65 \<le> (of_char (str_lower_char c) :: nat) \<and> (of_char (str_lower_char c) :: nat) \<le> 90)"
proof -
  have lt: "(of_char c :: nat) < 256" by simp
  show ?thesis
    using lt unfolding str_lower_char_def Let_def
    by auto
qed

lemma lower_no_W: "CHR ''W'' \<notin> set (lower s)"
proof
  assume "CHR ''W'' \<in> set (lower s)"
  then obtain c where "str_lower_char c = CHR ''W''" by (auto simp: lower_def)
  with str_lower_char_not_upper [of c] show False by simp
qed

lemma WARRENTY_never_in_lower: "\<not> sublist ''WARRENTY'' (lower s)"
proof
  assume "sublist ''WARRENTY'' (lower s)"
  then have "set ''WARRENTY'' \<subseteq> set (lower s)" by (rule set_mono_sublist)
  then show False using lower_no_W [of s] by simp
qed

subsection \<open>Categorizer\<close>

text \<open>
  C10. The keyword \<open>'WARRENTY'\<close> is tested against the lower-cased text, which holds no
  capital letter, so it never matches; the categorizer over the table without that keyword
  returns the same label as \<open>categorize_receipt\<close> on every text.
\<close>

theorem WARRENTY_keyword_dead:
  "\<not> sublist ''WARRENTY'' (lower s) \<and>
   categorize_loop (remove_keyword ''WARRENTY'' categories) s = categorize_receipt s"
  using WARRENTY_never_in_lower [of s]
  by (simp add: remove_keyword_def categories_def categorize_receipt_def)


lemma categorize_first_match:
  "categorize_receipt s =
     (case find (\<lambda>(category, keywords). \<exists>kw \<in> set keywords. sublist (lower kw) (lower s)) categories of
        None \<Rightarrow> ''other''
      | Some (category, keywords) \<Rightarrow> category)"
proof -
  have l: "lower ''restaurant'' = ''restaurant''" "lower ''cafe'' = ''cafe''" "lower ''diner'' = ''diner''"
    "lower ''grocery'' = ''grocery''" "lower ''supermarket'' = ''supermarket''" "lower ''food'' = ''food''"
    "lower ''walmart'' = ''walmart''" "lower ''electronics'' = ''electronics''"
    "lower ''technology'' = ''technology''" "lower ''gadget'' = ''gadget''"
    "lower ''warrenty'' = ''warrenty''" "lower ''WARRENTY'' = ''warrenty''"
    "lower ''valid until'' = ''valid until''" "lower ''expiry'' = ''expiry''"
    by code_simp+
  show ?thesis
    using WARRENTY_never_in_lower [of s]
    by (simp add: categorize_receipt_def categories_def l)
qed

text \<open>
  C1. Claimed: for every text the label is one of restaurant, grocery, electronics, warranty,
  other. The fourth row of the table is spelt \<open>warrenty\<close>, so a text with one of its keywords
  (and none of an earlier row) gets a label outside that set. The code at such a text:
\<close>

theorem categorize_label_misspelt:
  "categorize_receipt ''Battery expiry 2026'' = ''warrenty'' \<and>
   categorize_receipt ''Battery expiry 2026''
     \<notin> {''restaurant'', ''grocery'', ''electronics'', ''warranty'', ''other''}"
proof -
  have "categorize_receipt ''Battery expiry 2026'' = ''warrenty''" by code_simp
  then show ?thesis by simp
qed

text \<open>
  C2. Claimed: the result is the first category, in the order restaurant, grocery,
  electronics, warranty, with a keyword in the text, else other. The order and the default
  are as claimed (lemma \<open>categorize_first_match\<close>); the fourth category comes back under the
  label \<open>warrenty\<close>, not \<open>warranty\<close>. The code at a text whose only keyword is of the
  fourth row:
\<close>

theorem categorize_fourth_row_label:
  "categorize_receipt ''Valid until 05/01/2025'' = ''warrenty'' \<and>
   categorize_receipt ''Valid until 05/01/2025'' \<noteq> ''warranty''"
proof -
  have "categorize_receipt ''Valid until 05/01/2025'' = ''warrenty''" by code_simp
  then show ?thesis by simp
qed

subsection \<open>The matcher on the patterns of the program\<close>

lemma starts_with_length: "starts_with Ps s \<Longrightarrow> length Ps \<le> length s"
  by (induction Ps s rule: starts_with.induct) auto

lemma starts_with_take:
  "starts_with Ps s \<longleftrightarrow> length Ps \<le> length s \<and> starts_with Ps (take (length Ps) s)"
  by (induction Ps s rule: starts_with.induct) auto

lemma starts_with_append: "starts_with Ps s \<Longrightarrow> starts_with Ps (s @ t)"
  by (induction Ps s rule: starts_with.induct) auto

lemma ms_classes:
  "Ps \<noteq> [] \<Longrightarrow>
   ms (cat_list (map Cls Ps)) (s, g) = (if starts_with Ps s then [(drop (length Ps) s, g)] else [])"
proof (induction Ps arbitrary: s)
  case Nil
  then show ?case by simp
next
  case (Cons P Ps)
  show ?case
  proof (cases Ps)
    case Nil
    then show ?thesis by (cases s) auto
  next
    case (Cons Q Qs)
    then have "ms (cat_list (map Cls Ps)) (s', g) =
        (if starts_with Ps s' then [(drop (length Ps) s', g)] else [])" for s'
      using Cons.IH by simp
    with Cons show ?thesis by (cases s) auto
  qed
qed

lemma starts_with_literal:
  "starts_with (map (\<lambda>c x. f x = c) w) s \<longleftrightarrow> length w \<le> length s \<and> map f (take (length w) s) = w"
proof (induction w arbitrary: s)
  case Nil
  then show ?case by simp
next
  case (Cons a w)
  then show ?case by (cases s) auto
qed

lemma ms_date: "ms date_rx (s, g) = (if starts_with date_classes s then [(drop 10 s, g)] else [])"
proof -
  have rx: "date_rx = cat_list (map Cls date_classes)"
    by (simp add: date_rx_def date_classes_def)
  have ne: "date_classes \<noteq> []" and len: "length date_classes = 10"
    by (simp_all add: date_classes_def)
  have "ms (cat_list (map Cls date_classes)) (s, g) =
      (if starts_with date_classes s then [(drop (length date_classes) s, g)] else [])"
    using ne by (rule ms_classes)
  then show ?thesis unfolding rx len .
qed

lemma ms_literal_warranty:
  "ms (cat_list (map ichar ''warranty'')) (s, g) =
     (if 8 \<le> length s \<and> lower (take 8 s) = ''warranty'' then [(drop 8 s, g)] else [])"
proof -
  define Ps where "Ps = map (\<lambda>c x. str_lower_char x = c) ''warranty''"
  have rx: "map ichar ''warranty'' = map Cls Ps"
    by (simp add: ichar_def Ps_def)
  have ne: "Ps \<noteq> []" and len: "length Ps = 8" by (simp_all add: Ps_def)
  have "starts_with Ps s \<longleftrightarrow>
      length ''warranty'' \<le> length s \<and> lower (take (length ''warranty'') s) = ''warranty''"
    unfolding Ps_def lower_def by (rule starts_with_literal)
  moreover have "length ''warranty'' = 8" by simp
  ultimately have sw: "starts_with Ps s \<longleftrightarrow> 8 \<le> length s \<and> lower (take 8 s) = ''warranty''"
    by (simp only:)
  have "ms (cat_list (map Cls Ps)) (s, g) =
      (if starts_with Ps s then [(drop (length Ps) s, g)] else [])"
    using ne by (rule ms_classes)
  then show ?thesis unfolding rx len sw .
qed

lemma ms_lazy_Nil: "ms (Cat (StarL P) r) ([], g) = ms r ([], g)"
  by simp

lemma ms_lazy_Cons:
  "ms (Cat (StarL P) r) (c # cs, g) =
     ms r (c # cs, g) @ (if P c then ms (Cat (StarL P) r) (cs, g) else [])"
proof (cases "P c")
  case False
  then show ?thesis by simp
next
  case True
  define n where "n = length (takeWhile P cs)"
  have "[0 ..< Suc (Suc n)] = 0 # map Suc [0 ..< Suc n]"
    by (simp only: map_Suc_upt upt_conv_Cons [of 0 "Suc (Suc n)"])
  with True show ?thesis
    by (simp add: n_def [symmetric] o_def del: upt_Suc)
qed

lemma ms_grp_date:
  "ms (Grp date_rx) (s, g) =
     (if starts_with date_classes s then [(drop 10 s, g @ [take 10 s])] else [])"
proof (cases "starts_with date_classes s")
  case False
  then show ?thesis by (simp add: ms_date)
next
  case True
  then have "length date_classes \<le> length s" by (rule starts_with_length)
  then have "10 \<le> length s" by (simp add: date_classes_def)
  with True show ?thesis by (simp add: ms_date)
qed

lemma ms_lazy_date:
  "first_of (ms (Cat (StarL not_newline) (Grp date_rx)) (s, g)) =
     map_option (\<lambda>(d, rest). (g @ [d], rest)) (lazy_date s)"
proof (induction s)
  case Nil
  have "\<not> starts_with date_classes []" by (simp add: date_classes_def)
  then show ?case
    by (simp add: ms_lazy_Nil ms_grp_date first_of_def del: ms.simps)
next
  case (Cons c cs)
  show ?case
  proof (cases "starts_with date_classes (c # cs)")
    case True
    then show ?thesis
      by (simp add: ms_lazy_Cons ms_grp_date first_of_def del: ms.simps)
  next
    case False
    with Cons.IH show ?thesis
      by (simp add: ms_lazy_Cons ms_grp_date first_of_def not_newline_def del: ms.simps)
  qed
qed

lemma match_start_warranty:
  "match_start warranty_rx s =
     (if 8 \<le> length s \<and> lower (take 8 s) = ''warranty''
      then map_option (\<lambda>(d, rest). ([d], rest)) (lazy_date (drop 8 s)) else None)"
proof -
  define lit where "lit = cat_list (map ichar ''warranty'')"
  define tail where "tail = Cat (StarL not_newline) (Grp date_rx)"
  have m: "match_start r s = first_of (ms r (s, []))" for r
    by (simp add: match_start_def first_of_def)
  have "ms (Cat lit tail) (s, []) = concat (map (ms tail) (ms lit (s, [])))"
    by simp
  also have "\<dots> = (if 8 \<le> length s \<and> lower (take 8 s) = ''warranty''
       then ms tail (drop 8 s, []) else [])"
    unfolding lit_def ms_literal_warranty by (auto simp del: ms.simps)
  finally have "ms warranty_rx (s, []) =
      (if 8 \<le> length s \<and> lower (take 8 s) = ''warranty'' then ms tail (drop 8 s, []) else [])"
    by (simp only: warranty_rx_def lit_def tail_def)
  then show ?thesis
    using ms_lazy_date [of "drop 8 s" "[]"]
    by (auto simp add: m tail_def first_of_def simp del: ms.simps)
qed

text \<open>The matcher only reports what the pattern matches.\<close>

lemma take_takeWhile: "k \<le> length (takeWhile P s) \<Longrightarrow> list_all P (take k s)"
proof -
  assume k: "k \<le> length (takeWhile P s)"
  have "take k (takeWhile P s @ dropWhile P s) = take k (takeWhile P s)"
    using k by (simp del: takeWhile_dropWhile_id)
  then have "take k s = take k (takeWhile P s)" by (simp only: takeWhile_dropWhile_id)
  then have "set (take k s) \<subseteq> set (takeWhile P s)" by (simp add: set_take_subset)
  then show ?thesis by (auto simp: list_all_iff dest: set_takeWhileD)
qed

lemma ms_sound:
  "(s', g') \<in> set (ms r (s, g)) \<Longrightarrow> \<exists>u gs. s = u @ s' \<and> g' = g @ gs \<and> matches r u gs"
proof (induction r arbitrary: s g s' g')
  case (Cls P)
  then show ?case by (auto split: list.splits if_splits)
next
  case (Cat a b)
  then obtain s1 g1 where a: "(s1, g1) \<in> set (ms a (s, g))"
    and b: "(s', g') \<in> set (ms b (s1, g1))"
    by auto
  from Cat.IH(1) [OF a] obtain u1 gs1 where 1: "s = u1 @ s1" "g1 = g @ gs1" "matches a u1 gs1"
    by blast
  from Cat.IH(2) [OF b] obtain u2 gs2 where 2: "s1 = u2 @ s'" "g' = g1 @ gs2" "matches b u2 gs2"
    by blast
  from 1 2 have "s = (u1 @ u2) @ s'" "g' = g @ (gs1 @ gs2)" "matches (Cat a b) (u1 @ u2) (gs1 @ gs2)"
    by auto
  then show ?case by blast
next
  case (Alt a b)
  then have "(s', g') \<in> set (ms a (s, g)) \<or> (s', g') \<in> set (ms b (s, g))" by auto
  with Alt.IH show ?case by fastforce
next
  case (PlusG P)
  then obtain k where k: "1 \<le> k" "k \<le> length (takeWhile P s)" "s' = drop k s" "g' = g"
    by auto
  have "length (takeWhile P s) \<le> length s" by (rule length_takeWhile_le)
  with k have "take k s \<noteq> []" by auto
  moreover from k have "list_all P (take k s)" by (simp add: take_takeWhile)
  ultimately have "s = take k s @ s'" "g' = g @ []" "matches (PlusG P) (take k s) []"
    using k by simp_all
  then show ?case by blast
next
  case (StarL P)
  then obtain k where k: "k \<le> length (takeWhile P s)" "s' = drop k s" "g' = g"
    by (auto simp del: upt_Suc simp: less_Suc_eq_le)
  then have "list_all P (take k s)" by (simp add: take_takeWhile)
  with k have "s = take k s @ s'" "g' = g @ []" "matches (StarL P) (take k s) []"
    by simp_all
  then show ?case by blast
next
  case (Grp r)
  then obtain g1 where m: "(s', g1) \<in> set (ms r (s, g))"
    and g': "g' = g1 @ [take (length s - length s') s]"
    by auto
  from Grp.IH [OF m] obtain u gs where u: "s = u @ s'" "g1 = g @ gs" "matches r u gs" by blast
  then have "take (length s - length s') s = u" by simp
  with u g' have "s = u @ s'" "g' = g @ (gs @ [u])" "matches (Grp r) u (gs @ [u])" by auto
  then show ?case by blast
qed

lemma match_start_sound:
  "match_start r s = Some (g, rest) \<Longrightarrow> \<exists>u. s = u @ rest \<and> matches r u g"
proof -
  assume "match_start r s = Some (g, rest)"
  then have "(rest, g) \<in> set (ms r (s, []))"
    by (auto simp: match_start_def split: list.splits)
  from ms_sound [OF this] show ?thesis by simp
qed

lemma search_sound:
  "search r s = Some (g, rest) \<Longrightarrow> \<exists>pre u. s = pre @ u @ rest \<and> matches r u g"
proof (induction s)
  case Nil
  then have "match_start r [] = Some (g, rest)" by simp
  from match_start_sound [OF this] show ?case by auto
next
  case (Cons c cs)
  show ?case
  proof (cases "match_start r (c # cs)")
    case None
    with Cons.prems have "search r cs = Some (g, rest)" by simp
    from Cons.IH [OF this] obtain pre u where "cs = pre @ u @ rest" "matches r u g" by blast
    then have "c # cs = (c # pre) @ u @ rest" "matches r u g" by simp_all
    then show ?thesis by blast
  next
    case (Some m)
    with Cons.prems have "match_start r (c # cs) = Some (g, rest)" by simp
    from match_start_sound [OF this] obtain u where "c # cs = [] @ u @ rest" "matches r u g" by auto
    then show ?thesis by blast
  qed
qed

text \<open>\<open>re.search\<close> reports the match at the least start position that has one.\<close>

lemma match_at_0: "match_at r s 0 \<longleftrightarrow> match_start r s \<noteq> None"
  by (simp add: match_at_def)

lemma match_at_Suc: "match_at r (c # cs) (Suc i) \<longleftrightarrow> match_at r cs i"
  by (simp add: match_at_def)

lemma search_least:
  "search r s =
     (if \<exists>i. match_at r s i then match_start r (drop (LEAST i. match_at r s i) s) else None)"
proof (induction s)
  case Nil
  show ?case by (cases "match_start r []") (simp_all add: match_at_def)
next
  case (Cons c cs)
  show ?case
  proof (cases "match_start r (c # cs)")
    case (Some m)
    then have 0: "match_at r (c # cs) 0" by (simp add: match_at_0)
    then have "(LEAST i. match_at r (c # cs) i) = 0" by (rule Least_eq_0)
    with Some 0 show ?thesis by auto
  next
    case None
    then have n0: "\<not> match_at r (c # cs) 0" by (simp add: match_at_0)
    have ex: "(\<exists>i. match_at r (c # cs) i) \<longleftrightarrow> (\<exists>i. match_at r cs i)"
    proof
      assume "\<exists>i. match_at r (c # cs) i"
      then obtain i where i: "match_at r (c # cs) i" ..
      with n0 obtain i' where "i = Suc i'" by (cases i) auto
      with i show "\<exists>i. match_at r cs i" by (auto simp: match_at_Suc)
    next
      assume "\<exists>i. match_at r cs i"
      then obtain i where "match_at r cs i" ..
      then have "match_at r (c # cs) (Suc i)" by (simp add: match_at_Suc)
      then show "\<exists>i. match_at r (c # cs) i" ..
    qed
    show ?thesis
    proof (cases "\<exists>i. match_at r cs i")
      case False
      with ex None Cons.IH show ?thesis by simp
    next
      case True
      then obtain i where "match_at r cs i" ..
      then have "match_at r (c # cs) (Suc i)" by (simp add: match_at_Suc)
      then have "(LEAST i. match_at r (c # cs) i) = Suc (LEAST m. match_at r (c # cs) (Suc m))"
        using n0 by (rule Least_Suc)
      then have L: "(LEAST i. match_at r (c # cs) i) = Suc (LEAST m. match_at r cs m)"
        by (simp add: match_at_Suc)
      from True ex None Cons.IH show ?thesis by (simp add: L)
    qed
  qed
qed

subsection \<open>Warranty date\<close>

lemma date_shape_take: "date_shape (take 10 s) \<longleftrightarrow> starts_with date_classes s"
proof -
  have len: "length date_classes = 10" by (simp add: date_classes_def)
  have "starts_with date_classes s \<longleftrightarrow> 10 \<le> length s \<and> starts_with date_classes (take 10 s)"
    using starts_with_take [of date_classes s] by (simp only: len)
  then show ?thesis by (auto simp: date_shape_def)
qed

lemma date_after_0: "date_after s 0 \<longleftrightarrow> starts_with date_classes s"
  by (simp add: date_after_def)

lemma date_after_Suc: "date_after (c # cs) (Suc k) \<longleftrightarrow> c \<noteq> CHR 0x0A \<and> date_after cs k"
  by (auto simp: date_after_def)

lemma date_after_Nil: "\<not> date_after [] k"
  by (simp add: date_after_def date_classes_def)

lemma lazy_date_least:
  "lazy_date s =
     (if \<exists>k. date_after s k
      then Some (take 10 (drop (LEAST k. date_after s k) s),
                 drop 10 (drop (LEAST k. date_after s k) s))
      else None)"
proof (induction s)
  case Nil
  then show ?case by (simp add: date_after_Nil)
next
  case (Cons c cs)
  show ?case
  proof (cases "starts_with date_classes (c # cs)")
    case True
    then have 0: "date_after (c # cs) 0" by (simp add: date_after_0)
    then have "(LEAST k. date_after (c # cs) k) = 0" by (rule Least_eq_0)
    with True 0 show ?thesis by auto
  next
    case no0: False
    then have n0: "\<not> date_after (c # cs) 0" by (simp add: date_after_0)
    show ?thesis
    proof (cases "c = CHR 0x0A")
      case True
      have "\<not> date_after (c # cs) k" for k
        using n0 True by (cases k) (simp_all add: date_after_Suc)
      with no0 True show ?thesis by simp
    next
      case False
      have ex: "(\<exists>k. date_after (c # cs) k) \<longleftrightarrow> (\<exists>k. date_after cs k)"
      proof
        assume "\<exists>k. date_after (c # cs) k"
        then obtain k where k: "date_after (c # cs) k" ..
        with n0 obtain k' where "k = Suc k'" by (cases k) auto
        with k show "\<exists>k. date_after cs k" by (auto simp: date_after_Suc)
      next
        assume "\<exists>k. date_after cs k"
        then obtain k where "date_after cs k" ..
        with False have "date_after (c # cs) (Suc k)" by (simp add: date_after_Suc)
        then show "\<exists>k. date_after (c # cs) k" ..
      qed
      show ?thesis
      proof (cases "\<exists>k. date_after cs k")
        case nex: False
        with ex no0 False Cons.IH show ?thesis by simp
      next
        case True
        then obtain k where "date_after cs k" ..
        with False have "date_after (c # cs) (Suc k)" by (simp add: date_after_Suc)
        then have "(LEAST k. date_after (c # cs) k) = Suc (LEAST m. date_after (c # cs) (Suc m))"
          using n0 by (rule Least_Suc)
        also have "(LEAST m. date_after (c # cs) (Suc m)) = (LEAST m. date_after cs m)"
          using False by (simp add: date_after_Suc)
        finally have L: "(LEAST k. date_after (c # cs) k) = Suc (LEAST m. date_after cs m)" .
        from True ex no0 False Cons.IH show ?thesis by (simp add: L)
      qed
    qed
  qed
qed

lemma warranty_then_date_iff:
  "warranty_then_date s i j \<longleftrightarrow>
     lower (take 8 (drop i s)) = ''warranty'' \<and> i + 8 \<le> j \<and>
     date_after (drop (i + 8) s) (j - (i + 8))"
proof (cases "i + 8 \<le> j")
  case False
  then show ?thesis by (simp add: warranty_then_date_def)
next
  case True
  then have "drop (j - (i + 8)) (drop (i + 8) s) = drop j s" by simp
  then show ?thesis
    by (simp only: warranty_then_date_def date_after_def date_shape_take) blast
qed

lemma literal_length: "lower (take 8 s) = ''warranty'' \<Longrightarrow> 8 \<le> length s"
proof -
  assume "lower (take 8 s) = ''warranty''"
  then have "length (lower (take 8 s)) = length ''warranty''" by (rule arg_cong)
  then show ?thesis by (simp add: lower_def)
qed

lemma match_start_warranty_None:
  "(\<forall>j. \<not> warranty_then_date s i j) \<Longrightarrow> match_start warranty_rx (drop i s) = None"
proof -
  assume no: "\<forall>j. \<not> warranty_then_date s i j"
  show ?thesis
  proof (cases "lower (take 8 (drop i s)) = ''warranty''")
    case False
    then show ?thesis by (simp add: match_start_warranty)
  next
    case True
    have "\<not> date_after (drop (i + 8) s) k" for k
      using no [rule_format, of "i + 8 + k"] True by (simp add: warranty_then_date_iff)
    then have "lazy_date (drop (i + 8) s) = None" by (simp add: lazy_date_least)
    then show ?thesis by (simp add: match_start_warranty add.commute)
  qed
qed

lemma match_start_warranty_Some:
  assumes "warranty_then_date s i j"
  shows "match_start warranty_rx (drop i s) =
           Some ([take 10 (drop (date_pos s i) s)], drop 10 (drop (date_pos s i) s))"
    and "warranty_then_date s i (date_pos s i)"
    and "date_pos s i \<le> j"
proof -
  from assms have lit: "lower (take 8 (drop i s)) = ''warranty''"
    and ij: "i + 8 \<le> j"
    and da: "date_after (drop (i + 8) s) (j - (i + 8))"
    by (simp_all add: warranty_then_date_iff)
  define L where "L = (LEAST k. date_after (drop (i + 8) s) k)"
  have dp: "date_pos s i = i + 8 + L" by (simp add: date_pos_def L_def)
  from da have daL: "date_after (drop (i + 8) s) L" unfolding L_def by (rule LeastI)
  from da have "L \<le> j - (i + 8)" unfolding L_def by (rule Least_le)
  with ij show "date_pos s i \<le> j" by (simp add: dp)
  from lit daL show "warranty_then_date s i (date_pos s i)"
    by (simp add: warranty_then_date_iff dp)
  from da have ex: "\<exists>k. date_after (drop (i + 8) s) k" ..
  have dd: "drop L (drop (i + 8) s) = drop (date_pos s i) s" by (simp add: dp add.commute)
  from lit have "8 \<le> length (drop i s)" by (rule literal_length)
  with lit ex show "match_start warranty_rx (drop i s) =
           Some ([take 10 (drop (date_pos s i) s)], drop 10 (drop (date_pos s i) s))"
    using dd by (simp add: match_start_warranty lazy_date_least L_def [symmetric] add.commute)
qed

lemma match_at_warranty: "match_at warranty_rx s i \<longleftrightarrow> (\<exists>j. warranty_then_date s i j)"
proof
  assume "match_at warranty_rx s i"
  then have "match_start warranty_rx (drop i s) \<noteq> None" by (simp add: match_at_def)
  with match_start_warranty_None [of s i] show "\<exists>j. warranty_then_date s i j" by blast
next
  assume "\<exists>j. warranty_then_date s i j"
  then obtain j where "warranty_then_date s i j" ..
  then have "match_start warranty_rx (drop i s) =
      Some ([take 10 (drop (date_pos s i) s)], drop 10 (drop (date_pos s i) s))"
    by (rule match_start_warranty_Some)
  then show "match_at warranty_rx s i" by (simp add: match_at_def)
qed

lemma search_warranty_None:
  "search warranty_rx s = None \<longleftrightarrow> (\<forall>i j. \<not> warranty_then_date s i j)"
proof
  assume n: "search warranty_rx s = None"
  show "\<forall>i j. \<not> warranty_then_date s i j"
  proof (intro allI notI)
    fix i j assume w: "warranty_then_date s i j"
    then have ex: "\<exists>i. match_at warranty_rx s i" by (auto simp: match_at_warranty)
    define I where "I = (LEAST i. match_at warranty_rx s i)"
    from ex have "match_at warranty_rx s I" unfolding I_def by (metis LeastI)
    then have "match_start warranty_rx (drop I s) \<noteq> None" by (simp add: match_at_def)
    moreover from ex n have "match_start warranty_rx (drop I s) = None"
      by (simp add: search_least I_def)
    ultimately show False by simp
  qed
next
  assume "\<forall>i j. \<not> warranty_then_date s i j"
  then have "\<not> (\<exists>i. match_at warranty_rx s i)" by (simp add: match_at_warranty)
  then show "search warranty_rx s = None" by (simp add: search_least)
qed

lemma search_warranty_Some:
  assumes ex: "warranty_then_date s i0 j0"
  shows "\<exists>i j. search warranty_rx s = Some ([take 10 (drop j s)], drop 10 (drop j s)) \<and>
           warranty_then_date s i j \<and>
           (\<forall>i' j'. warranty_then_date s i' j' \<longrightarrow> i \<le> i' \<and> (i' = i \<longrightarrow> j \<le> j'))"
proof -
  define I where "I = (LEAST i. match_at warranty_rx s i)"
  from ex have exm: "\<exists>i. match_at warranty_rx s i" by (auto simp: match_at_warranty)
  then have "match_at warranty_rx s I" unfolding I_def by (metis LeastI)
  then obtain j where j: "warranty_then_date s I j" by (auto simp: match_at_warranty)
  have s: "search warranty_rx s = match_start warranty_rx (drop I s)"
    using exm by (simp add: search_least I_def)
  have min: "I \<le> i' \<and> (i' = I \<longrightarrow> date_pos s I \<le> j')" if w: "warranty_then_date s i' j'" for i' j'
  proof
    from w have "match_at warranty_rx s i'" by (auto simp: match_at_warranty)
    then show "I \<le> i'" unfolding I_def by (rule Least_le)
    show "i' = I \<longrightarrow> date_pos s I \<le> j'"
      using w match_start_warranty_Some(3) by blast
  qed
  from match_start_warranty_Some(1,2) [OF j] s min show ?thesis by (intro exI [of _ I] exI [of _ "date_pos s I"]) simp
qed

lemma warranty_groups:
  "search warranty_rx s = Some (g, rest) \<Longrightarrow> \<exists>d. g = [d] \<and> date_shape d"
proof -
  assume s: "search warranty_rx s = Some (g, rest)"
  then have "\<not> (\<forall>i j. \<not> warranty_then_date s i j)" by (simp add: search_warranty_None [symmetric])
  then obtain i0 j0 where "warranty_then_date s i0 j0" by blast
  from search_warranty_Some [OF this] s obtain i j where "g = [take 10 (drop j s)]"
    "warranty_then_date s i j" by auto
  then show ?thesis by (auto simp: warranty_then_date_def)
qed

lemma extract_warranty_None:
  "fst (extract_warranty_and_products s) = None \<longleftrightarrow> (\<forall>i j. \<not> warranty_then_date s i j)"
  by (simp add: extract_warranty_and_products_def search_warranty_None [symmetric]
      split: option.splits)

lemma extract_warranty_Some:
  "fst (extract_warranty_and_products s) = Some d \<longleftrightarrow>
     (\<exists>i j. warranty_then_date s i j \<and> d = take 10 (drop j s) \<and>
        (\<forall>i' j'. warranty_then_date s i' j' \<longrightarrow> i \<le> i' \<and> (i' = i \<longrightarrow> j \<le> j')))"
proof
  assume e: "fst (extract_warranty_and_products s) = Some d"
  then have "\<not> (\<forall>i j. \<not> warranty_then_date s i j)"
    by (simp add: extract_warranty_None [symmetric])
  then obtain i0 j0 where "warranty_then_date s i0 j0" by blast
  from search_warranty_Some [OF this] obtain i j
    where sr: "search warranty_rx s = Some ([take 10 (drop j s)], drop 10 (drop j s))"
      and w: "warranty_then_date s i j"
      and m: "\<forall>i' j'. warranty_then_date s i' j' \<longrightarrow> i \<le> i' \<and> (i' = i \<longrightarrow> j \<le> j')"
    by blast
  from e sr have "d = take 10 (drop j s)"
    by (simp add: extract_warranty_and_products_def group1_def)
  with w m show "\<exists>i j. warranty_then_date s i j \<and> d = take 10 (drop j s) \<and>
        (\<forall>i' j'. warranty_then_date s i' j' \<longrightarrow> i \<le> i' \<and> (i' = i \<longrightarrow> j \<le> j'))"
    by blast
next
  assume "\<exists>i j. warranty_then_date s i j \<and> d = take 10 (drop j s) \<and>
        (\<forall>i' j'. warranty_then_date s i' j' \<longrightarrow> i \<le> i' \<and> (i' = i \<longrightarrow> j \<le> j'))"
  then obtain i j where w: "warranty_then_date s i j" and d: "d = take 10 (drop j s)"
    and m: "\<And>i' j'. warranty_then_date s i' j' \<Longrightarrow> i \<le> i' \<and> (i' = i \<longrightarrow> j \<le> j')"
    by blast
  from search_warranty_Some [OF w] obtain I J
    where sr: "search warranty_rx s = Some ([take 10 (drop J s)], drop 10 (drop J s))"
      and W: "warranty_then_date s I J"
      and M: "\<And>i' j'. warranty_then_date s i' j' \<Longrightarrow> I \<le> i' \<and> (i' = I \<longrightarrow> J \<le> j')"
    by blast
  from m [OF W] M [OF w] have "I = i" by simp
  with m [OF W] M [OF w] have "J = j" by simp
  with sr d show "fst (extract_warranty_and_products s) = Some d"
    by (simp add: extract_warranty_and_products_def group1_def)
qed

lemma no_token_no_match:
  "\<not> sublist ''warranty'' (lower s) \<Longrightarrow> \<not> warranty_then_date s i j"
proof
  assume n: "\<not> sublist ''warranty'' (lower s)" and "warranty_then_date s i j"
  then have "lower (take 8 (drop i s)) = ''warranty''" by (simp add: warranty_then_date_def)
  then have "''warranty'' = take 8 (drop i (lower s))" by (simp add: lower_def take_map drop_map)
  moreover have "sublist (take 8 (drop i (lower s))) (lower s)"
    by (meson sublist_take sublist_drop sublist_order.order_trans)
  ultimately show False using n by simp
qed


text \<open>
  C3, as stated, fails: the token may be followed by a date and the result still be absent,
  when a line feed stands between them (\<open>.\<close> does not match a line feed). The specification's
  reading finds the date; the code returns \<open>None\<close>.
\<close>

theorem extract_warranty_date_next_line:
  "spec_extractWarrantyDate ''Warranty until:\<newline>05/01/2025'' = Some ''05/01/2025'' \<and>
   fst (extract_warranty_and_products ''Warranty until:\<newline>05/01/2025'') = None"
  by code_simp

text \<open>
  C3, amended. The warranty date is absent exactly when no \<open>warranty\<close> token (in any case)
  is followed on its own line, with no line feed in between, by a date substring; otherwise
  it is the date substring of the first such match: the leftmost token that has one, and
  for that token the nearest date. In particular a text without the token has no warranty
  date, and \<open>Receipt 42 warranty valid until 05/01/2025 thanks\<close> has \<open>05/01/2025\<close>.
\<close>

theorem extract_warranty_date_same_line:
  "(fst (extract_warranty_and_products s) = None \<longleftrightarrow> (\<forall>i j. \<not> warranty_then_date s i j)) \<and>
   (fst (extract_warranty_and_products s) = Some d \<longleftrightarrow>
      (\<exists>i j. warranty_then_date s i j \<and> d = take 10 (drop j s) \<and>
         (\<forall>i' j'. warranty_then_date s i' j' \<longrightarrow> i \<le> i' \<and> (i' = i \<longrightarrow> j \<le> j')))) \<and>
   (\<not> sublist ''warranty'' (lower s) \<longrightarrow> fst (extract_warranty_and_products s) = None) \<and>
   fst (extract_warranty_and_products ''Receipt 42 warranty valid until 05/01/2025 thanks'') =
     Some ''05/01/2025''"
proof (intro conjI impI)
  show "fst (extract_warranty_and_products s) = None \<longleftrightarrow> (\<forall>i j. \<not> warranty_then_date s i j)"
    by (rule extract_warranty_None)
  show "fst (extract_warranty_and_products s) = Some d \<longleftrightarrow>
      (\<exists>i j. warranty_then_date s i j \<and> d = take 10 (drop j s) \<and>
         (\<forall>i' j'. warranty_then_date s i' j' \<longrightarrow> i \<le> i' \<and> (i' = i \<longrightarrow> j \<le> j')))"
    by (rule extract_warranty_Some)
  show "fst (extract_warranty_and_products s) = None" if "\<not> sublist ''warranty'' (lower s)"
    using that by (simp add: extract_warranty_None no_token_no_match)
  show "fst (extract_warranty_and_products ''Receipt 42 warranty valid until 05/01/2025 thanks'') =
     Some ''05/01/2025''"
    by code_simp
qed

theorem extract_warranty_date_same_line_witness:
  "fst (extract_warranty_and_products
          ''Warranty card\<newline>warranty until 05/01/2025 or 06/01/2026'') = Some ''05/01/2025'' \<and>
   (\<exists>i j. warranty_then_date ''Warranty card\<newline>warranty until 05/01/2025 or 06/01/2026'' i j \<and>
      ''05/01/2025'' = take 10 (drop j ''Warranty card\<newline>warranty until 05/01/2025 or 06/01/2026'')) \<and>
   \<not> sublist ''warranty'' (lower ''Milk 3.50'') \<and>
   fst (extract_warranty_and_products ''Milk 3.50'') = None"
proof -
  define s0 where "s0 = ''Warranty card\<newline>warranty until 05/01/2025 or 06/01/2026''"
  have e: "fst (extract_warranty_and_products s0) = Some ''05/01/2025''"
    unfolding s0_def by code_simp
  have n: "\<not> sublist ''warranty'' (lower ''Milk 3.50'')" by code_simp
  from extract_warranty_date_same_line [of s0 "''05/01/2025''"] e
  have "\<exists>i j. warranty_then_date s0 i j \<and> ''05/01/2025'' = take 10 (drop j s0)"
    by blast
  moreover from extract_warranty_date_same_line [of "''Milk 3.50''" "[]"] n
  have "fst (extract_warranty_and_products ''Milk 3.50'') = None" by blast
  ultimately show ?thesis using e n unfolding s0_def by blast
qed

subsection \<open>Line items\<close>

lemma matches_price:
  "matches price_rx p gs \<Longrightarrow> gs = [] \<and> price_shape p \<and> (\<exists>ds d. p = ds @ d \<and> starts_with fraction_classes d)"
proof -
  assume "matches price_rx p gs"
  then obtain ds d1 d2 where p: "p = ds @ [CHR ''.'', d1, d2]" "ds \<noteq> []" "list_all is_digit ds"
    "is_digit d1" "is_digit d2" and gs: "gs = []"
    by (auto simp: price_rx_def)
  from p have "price_shape p" by (simp add: price_shape_def)
  moreover from p have "starts_with fraction_classes [CHR ''.'', d1, d2]"
    by (simp add: fraction_classes_def)
  ultimately show ?thesis using p(1) gs by blast
qed

lemma matches_products:
  "matches products_rx u gs \<Longrightarrow>
     \<exists>name sep price. u = name @ sep @ price \<and> gs = [name, price] \<and> name_shape name \<and>
        sep \<noteq> [] \<and> list_all is_space sep \<and> matches price_rx price []"
proof -
  assume "matches products_rx u gs"
  then obtain name sep price gp where u: "u = name @ sep @ price"
    and n: "name \<noteq> []" "list_all is_name_char name"
    and s: "sep \<noteq> []" "list_all is_space sep"
    and p: "matches price_rx price gp" and gs: "gs = [name] @ gp @ [price]"
    unfolding products_rx_def by auto
  from matches_price [OF p] have "gp = []" by simp
  with u n s p gs show ?thesis by (auto simp: name_shape_def)
qed

lemma has_fraction2_append:
  "starts_with fraction_classes d \<Longrightarrow> has_fraction2 (xs @ d @ ys)"
proof (induction xs)
  case Nil
  then have "starts_with fraction_classes (d @ ys)" by (rule starts_with_append)
  moreover from Nil have "d \<noteq> []" by (auto simp: fraction_classes_def)
  ultimately show ?case by (cases d) auto
next
  case (Cons x xs)
  then show ?case by simp
qed

lemma search_products:
  assumes "search products_rx s = Some (g, rest)"
  shows "\<exists>pre name sep price. s = pre @ name @ sep @ price @ rest \<and> g = [name, price] \<and>
           name_shape name \<and> sep \<noteq> [] \<and> list_all is_space sep \<and> price_shape price"
    and "has_fraction2 s"
proof -
  from search_sound [OF assms] obtain pre u where s: "s = pre @ u @ rest"
    and m: "matches products_rx u g" by blast
  from matches_products [OF m] obtain name sep price where u: "u = name @ sep @ price"
    and g: "g = [name, price]" and sh: "name_shape name" "sep \<noteq> []" "list_all is_space sep"
    and p: "matches price_rx price []" by blast
  from matches_price [OF p] obtain ds d where pr: "price_shape price" "price = ds @ d"
    "starts_with fraction_classes d" by blast
  from s u g sh pr(1) show "\<exists>pre name sep price. s = pre @ name @ sep @ price @ rest \<and>
      g = [name, price] \<and> name_shape name \<and> sep \<noteq> [] \<and> list_all is_space sep \<and> price_shape price"
    by auto
  from s u pr(2) have "s = (pre @ name @ sep @ ds) @ d @ rest" by simp
  with has_fraction2_append [OF pr(3)] show "has_fraction2 s" by metis
qed

lemma products_groups: "search products_rx s = Some (g, rest) \<Longrightarrow> \<exists>name price. g = [name, price]"
  using search_products(1) by blast












subsection \<open>Warranty monitor\<close>

lemma matches_group_free: "group_free r \<Longrightarrow> matches r u gs \<Longrightarrow> gs = []"
  by (induction r arbitrary: u gs) auto

lemma strptime_groups:
  "match_start strptime_rx s = Some (g, rest) \<Longrightarrow> \<exists>m d y. g = [m, d, y]"
proof -
  assume "match_start strptime_rx s = Some (g, rest)"
  from match_start_sound [OF this] obtain u where m: "matches strptime_rx u g" by blast
  define A where "A = Alt (Cat (ch CHR ''1'') (rng CHR ''0'' CHR ''2''))
          (Alt (Cat (ch CHR ''0'') (rng CHR ''1'' CHR ''9''))
               (rng CHR ''1'' CHR ''9''))"
  define B where "B = Alt (Cat (ch CHR ''3'') (rng CHR ''0'' CHR ''1''))
          (Alt (Cat (rng CHR ''1'' CHR ''2'') (Cls is_digit))
          (Alt (Cat (ch CHR ''0'') (rng CHR ''1'' CHR ''9''))
          (Alt (rng CHR ''1'' CHR ''9'')
               (Cat (ch CHR '' '') (rng CHR ''1'' CHR ''9'')))))"
  define C where "C = cat_list [Cls is_digit, Cls is_digit, Cls is_digit, Cls is_digit]"
  define sl where "sl = ch CHR ''/''"
  have gf: "group_free A" "group_free B" "group_free C" "group_free sl"
    by (simp_all add: A_def B_def C_def sl_def ch_def rng_def)
  have "strptime_rx = Cat (Grp A) (Cat sl (Cat (Grp B) (Cat sl (Grp C))))"
    by (simp add: strptime_rx_def A_def B_def C_def sl_def)
  with m have "matches (Cat (Grp A) (Cat sl (Cat (Grp B) (Cat sl (Grp C))))) u g"
    by (simp only:)
  then obtain u1 u2 u3 u4 u5 g1 g2 g3 g4 g5
    where g: "g = (g1 @ [u1]) @ g2 @ (g3 @ [u3]) @ g4 @ (g5 @ [u5])"
      and ms: "matches A u1 g1" "matches sl u2 g2" "matches B u3 g3" "matches sl u4 g4"
        "matches C u5 g5"
    by (simp only: matches.simps) blast
  from ms gf have "g1 = []" "g2 = []" "g3 = []" "g4 = []" "g5 = []"
    by (auto dest: matches_group_free)
  with g show ?thesis by simp
qed
lemma strptime_only_ValueError: "strptime_mdY s = Inl e \<Longrightarrow> e = ValueError"
  by (auto simp: strptime_mdY_def new_date_def split: option.splits if_splits list.splits)

lemma check_loop_result:
  "fst (check_loop today thr ws acc w) = Inr (acc @ List.map_filter (expiring_record today thr) ws)"
proof (induction ws arbitrary: acc w)
  case Nil
  then show ?case by (simp add: List.map_filter_simps)
next
  case (Cons r ws)
  obtain item date_str path where r: "r = (item, date_str, path)" by (cases r)
  show ?case
  proof (cases "strptime_mdY date_str")
    case (Inl e)
    then have "e = ValueError" by (rule strptime_only_ValueError)
    with Inl Cons.IH r show ?thesis
      by (simp add: List.map_filter_simps expiring_record_def)
  next
    case (Inr d)
    with Cons.IH r show ?thesis
      by (simp add: List.map_filter_simps expiring_record_def)
  qed
qed

lemma check_loop_world:
  "snd (check_loop today thr ws acc w) =
     w\<lparr>logged := logged w @ map invalid_date_warning (filter (\<lambda>r. \<not> date_parses r) ws)\<rparr>"
proof (induction ws arbitrary: acc w)
  case Nil
  then show ?case by simp
next
  case (Cons r ws)
  obtain item date_str path where r: "r = (item, date_str, path)" by (cases r)
  show ?case
  proof (cases "strptime_mdY date_str")
    case (Inl e)
    then have "e = ValueError" by (rule strptime_only_ValueError)
    with Inl Cons.IH r show ?thesis
      by (simp add: date_parses_def invalid_date_warning_def logging_def)
  next
    case (Inr d)
    with Cons.IH r show ?thesis
      by (simp add: date_parses_def)
  qed
qed

lemma map_filter_parsing:
  "List.map_filter (expiring_record today thr) (filter date_parses ws) =
   List.map_filter (expiring_record today thr) ws"
  by (induction ws)
     (auto simp: List.map_filter_simps expiring_record_def date_parses_def split: sum.splits)

text \<open>
  C4. The result is the list of the records whose date string parses and whose date lies
  at most \<open>days_threshold\<close> days after today (a date in the past gives a negative
  difference and is included), each with its parsed date, in the order of the input.
  Today is the date the wall clock shows when the function is called.
\<close>

theorem check_expiring_included:
  "fst (check_expiring_warranties ws thr w) =
     Inr (List.map_filter (expiring_record (fst (clock w)) thr) ws)"
  by (simp add: check_expiring_warranties_def check_loop_result)

theorem check_expiring_included_witness:
  "fst (check_expiring_warranties
          [(''r1.jpg'', ''01/15/2024'', ''out/grocery/r1.txt''),
           (''r2.jpg'', ''02/01/2024'', ''out/other/r2.txt''),
           (''r3.jpg'', ''13/40/2024'', ''out/other/r3.txt''),
           (''r4.jpg'', ''01/09/2024'', ''out/electronics/r4.txt'')] 7 example_world) =
     Inr [(''r1.jpg'', \<lparr>year = 2024, month = 1, day = 15\<rparr>, ''out/grocery/r1.txt''),
          (''r4.jpg'', \<lparr>year = 2024, month = 1, day = 9\<rparr>, ''out/electronics/r4.txt'')]"
proof -
  have "List.map_filter (expiring_record (fst (clock example_world)) 7)
          [(''r1.jpg'', ''01/15/2024'', ''out/grocery/r1.txt''),
           (''r2.jpg'', ''02/01/2024'', ''out/other/r2.txt''),
           (''r3.jpg'', ''13/40/2024'', ''out/other/r3.txt''),
           (''r4.jpg'', ''01/09/2024'', ''out/electronics/r4.txt'')] =
        [(''r1.jpg'', \<lparr>year = 2024, month = 1, day = 15\<rparr>, ''out/grocery/r1.txt''),
         (''r4.jpg'', \<lparr>year = 2024, month = 1, day = 9\<rparr>, ''out/electronics/r4.txt'')]"
    by code_simp
  then show ?thesis by (simp only: check_expiring_included)
qed

text \<open>
  C5. The function always returns a list, never an exception. Its result is the result on
  the input without the records whose date string does not parse, and the only change to
  the world is one \<open>WARNING\<close> entry per such record, appended to the log in input order.
\<close>

theorem check_expiring_skips_unparsable:
  "\<exists>res. fst (check_expiring_warranties ws thr w) = Inr res \<and>
         fst (check_expiring_warranties (filter date_parses ws) thr w) = Inr res \<and>
         snd (check_expiring_warranties ws thr w) =
           w\<lparr>logged := logged w @ map invalid_date_warning (filter (\<lambda>r. \<not> date_parses r) ws)\<rparr>"
  by (simp add: check_expiring_warranties_def check_loop_result check_loop_world map_filter_parsing)

theorem check_expiring_skips_unparsable_witness:
  "fst (check_expiring_warranties
          [(''r1.jpg'', ''01/15/2024'', ''out/grocery/r1.txt''),
           (''r3.jpg'', ''13/40/2024'', ''out/other/r3.txt''),
           (''r4.jpg'', ''01/09/2024'', ''out/electronics/r4.txt'')] 7 example_world) =
   fst (check_expiring_warranties
          [(''r1.jpg'', ''01/15/2024'', ''out/grocery/r1.txt''),
           (''r4.jpg'', ''01/09/2024'', ''out/electronics/r4.txt'')] 7 example_world) \<and>
   snd (check_expiring_warranties
          [(''r1.jpg'', ''01/15/2024'', ''out/grocery/r1.txt''),
           (''r3.jpg'', ''13/40/2024'', ''out/other/r3.txt''),
           (''r4.jpg'', ''01/09/2024'', ''out/electronics/r4.txt'')] 7 example_world) =
     example_world\<lparr>logged := [(WARNING, Invalid_date_format ''r3.jpg'' ''13/40/2024'')]\<rparr>"
proof -
  define ws where "ws =
    [(''r1.jpg'', ''01/15/2024'', ''out/grocery/r1.txt''),
     (''r3.jpg'', ''13/40/2024'', ''out/other/r3.txt''),
     (''r4.jpg'', ''01/09/2024'', ''out/electronics/r4.txt'')]"
  have f: "filter date_parses ws =
      [(''r1.jpg'', ''01/15/2024'', ''out/grocery/r1.txt''),
       (''r4.jpg'', ''01/09/2024'', ''out/electronics/r4.txt'')]"
    unfolding ws_def by code_simp
  have l: "logged example_world @ map invalid_date_warning (filter (\<lambda>r. \<not> date_parses r) ws) =
      [(WARNING, Invalid_date_format ''r3.jpg'' ''13/40/2024'')]"
    unfolding ws_def by code_simp
  from check_expiring_skips_unparsable [of ws 7 example_world]
  show ?thesis unfolding f l unfolding ws_def by auto
qed

text \<open>
  C9, as stated, fails: the function has no \<open>today\<close> parameter and reads the wall clock
  itself, so two calls with the same records and the same threshold differ when the clock
  shows another day.
\<close>

theorem check_expiring_reads_clock:
  "fst (check_expiring_warranties [(''r1.jpg'', ''01/20/2024'', ''out/grocery/r1.txt'')] 7
          (example_world\<lparr>clock := (\<lparr>year = 2024, month = 1, day = 10\<rparr>, 0)\<rparr>)) \<noteq>
   fst (check_expiring_warranties [(''r1.jpg'', ''01/20/2024'', ''out/grocery/r1.txt'')] 7
          (example_world\<lparr>clock := (\<lparr>year = 2024, month = 1, day = 15\<rparr>, 0)\<rparr>))"
  by code_simp

text \<open>
  C9, amended. The function reads today's date from the wall clock when it is called; of
  the world it uses nothing else, so two calls with the same records and the same threshold
  at which the clock shows the same calendar date return the same result.
\<close>

theorem check_expiring_same_date:
  "fst (clock w1) = fst (clock w2) \<Longrightarrow>
   fst (check_expiring_warranties ws thr w1) = fst (check_expiring_warranties ws thr w2)"
  by (simp add: check_expiring_warranties_def check_loop_result)

theorem check_expiring_same_date_witness:
  "fst (clock (example_world\<lparr>clock := (\<lparr>year = 2024, month = 1, day = 10\<rparr>, 32400000000)\<rparr>)) =
   fst (clock (example_world\<lparr>clock := (\<lparr>year = 2024, month = 1, day = 10\<rparr>, 61200000000),
                             logged := [(INFO, Generated ''out/other/r0.txt'')]\<rparr>)) \<and>
   fst (check_expiring_warranties [(''r1.jpg'', ''01/15/2024'', ''out/grocery/r1.txt'')] 7
          (example_world\<lparr>clock := (\<lparr>year = 2024, month = 1, day = 10\<rparr>, 32400000000)\<rparr>)) =
   fst (check_expiring_warranties [(''r1.jpg'', ''01/15/2024'', ''out/grocery/r1.txt'')] 7
          (example_world\<lparr>clock := (\<lparr>year = 2024, month = 1, day = 10\<rparr>, 61200000000),
                          logged := [(INFO, Generated ''out/other/r0.txt'')]\<rparr>))"
proof -
  have h: "fst (clock (example_world\<lparr>clock := (\<lparr>year = 2024, month = 1, day = 10\<rparr>, 32400000000)\<rparr>)) =
      fst (clock (example_world\<lparr>clock := (\<lparr>year = 2024, month = 1, day = 10\<rparr>, 61200000000),
                             logged := [(INFO, Generated ''out/other/r0.txt'')]\<rparr>))"
    by simp
  from h check_expiring_same_date [OF h] show ?thesis by (rule conjI)
qed

subsection \<open>Output writer and pipeline\<close>








lemma refused_logging [simp]: "refused (logging lv e w) = refused w"
  by (simp add: logging_def)





text \<open>
  In the file as it stands \<open>Image\<close> is bound nowhere: the look-up raises \<open>NameError\<close>,
  the handler logs it, and no receipt is written.
\<close>

lemma process_receipt_unbound_Image:
  "open_image w = (\<lambda>_. Inl NameError) \<Longrightarrow>
   process_receipt image_path output_dir w =
     ((None, None, None),
      logging ERROR (Error_processing_image image_path NameError)
        (logging DEBUG (Processing_receipt image_path) w))"
  by (simp add: process_receipt_def Let_def logging_def)

end
